theory Spec2Isabelle
  imports Complex_Main
begin

section \<open>Values and exceptions\<close>

text \<open>
  Python values of type \<open>Any\<close> that travel through contexts, slots and serialized frames.
  A nested dictionary is kept as an association list in insertion order.
\<close>

datatype pyval =
    PNone
  | PBool bool
  | PInt int
  | PStr string
  | PList "pyval list"
  | PDict "(string \<times> pyval) list"

text \<open>The exceptions raised by \<open>flow_stack.py\<close>.\<close>

datatype stack_error =
    KeyError string
  | NotImplementedError
  | TypeMismatch string

section \<open>The flow stack (\<open>rasa/cdu/flow_stack.py\<close>)\<close>

datatype StackFrameType =
    INTERRUPT | REMARK | LINK | CORRECTION | REGULAR | DOCSEARCH | INTENTLESS

fun StackFrameType_value :: "StackFrameType \<Rightarrow> string" where
  "StackFrameType_value INTERRUPT = ''interrupt''"
| "StackFrameType_value REMARK = ''remark''"
| "StackFrameType_value LINK = ''link''"
| "StackFrameType_value CORRECTION = ''correction''"
| "StackFrameType_value REGULAR = ''regular''"
| "StackFrameType_value DOCSEARCH = ''docsearch''"
| "StackFrameType_value INTENTLESS = ''intentless''"

text \<open>
  \<open>StackFrameType.from_str\<close>: the argument is whatever \<open>data.get("frame_type")\<close> gave,
  compared with \<open>==\<close> against each member's string value in the order of the source.
\<close>

definition StackFrameType_from_str :: "pyval \<Rightarrow> stack_error + StackFrameType" where
  "StackFrameType_from_str typ =
     (if typ = PNone then Inr REGULAR
      else if typ = PStr (StackFrameType_value INTERRUPT) then Inr INTERRUPT
      else if typ = PStr (StackFrameType_value LINK) then Inr LINK
      else if typ = PStr (StackFrameType_value REGULAR) then Inr REGULAR
      else if typ = PStr (StackFrameType_value CORRECTION) then Inr CORRECTION
      else if typ = PStr (StackFrameType_value DOCSEARCH) then Inr DOCSEARCH
      else if typ = PStr (StackFrameType_value INTENTLESS) then Inr INTENTLESS
      else if typ = PStr (StackFrameType_value REMARK) then Inr REMARK
      else Inl NotImplementedError)"

definition STACK_FRAME_TYPES_WITH_USER_FLOWS :: "StackFrameType set" where
  "STACK_FRAME_TYPES_WITH_USER_FLOWS = {INTERRUPT, REGULAR, LINK}"

text \<open>
  The start step's id is declared in \<open>rasa.shared.core.flows.flow\<close>, outside the sources at
  hand; no property below depends on the string.
\<close>

definition START_STEP :: string where
  "START_STEP = ''START''"

record FlowStackFrame =
  flow_id :: string
  step_id :: string
  frame_type :: StackFrameType
  "context" :: "(string \<times> pyval) list option"

text \<open>
  \<open>FlowStackFrame.as_dict\<close>: a dictionary with the four keys; the frame type is stored by
  its string value, the context as it is (\<open>None\<close> or the mapping).
\<close>

definition context_to_pyval :: "(string \<times> pyval) list option \<Rightarrow> pyval" where
  "context_to_pyval c = (case c of None \<Rightarrow> PNone | Some d \<Rightarrow> PDict d)"

definition FlowStackFrame_as_dict :: "FlowStackFrame \<Rightarrow> (string \<rightharpoonup> pyval)" where
  "FlowStackFrame_as_dict self =
     [''flow_id'' \<mapsto> PStr (flow_id self),
      ''step_id'' \<mapsto> PStr (step_id self),
      ''frame_type'' \<mapsto> PStr (StackFrameType_value (frame_type self)),
      ''context'' \<mapsto> context_to_pyval (context self)]"

text \<open>
  \<open>FlowStackFrame.from_dict\<close>. The constructor's arguments are evaluated left to right:
  \<open>data["flow_id"]\<close> and \<open>data["step_id"]\<close> raise \<open>KeyError\<close> on a missing key,
  \<open>data.get("frame_type")\<close> gives \<open>None\<close> on a missing key, \<open>data["context"]\<close> raises
  again. The dataclass declares \<open>flow_id: Text\<close>, \<open>step_id: Text\<close> and
  \<open>context: Optional[Dict]\<close>; a record holding a value of another type has no typed frame,
  which the model reports as \<open>TypeMismatch\<close> (Python would store the value unchecked).
\<close>

definition FlowStackFrame_from_dict :: "(string \<rightharpoonup> pyval) \<Rightarrow> stack_error + FlowStackFrame" where
  "FlowStackFrame_from_dict data =
     (case data ''flow_id'' of
        None \<Rightarrow> Inl (KeyError ''flow_id'')
      | Some fid \<Rightarrow>
     (case data ''step_id'' of
        None \<Rightarrow> Inl (KeyError ''step_id'')
      | Some sid \<Rightarrow>
     (case StackFrameType_from_str (case data ''frame_type'' of None \<Rightarrow> PNone | Some t \<Rightarrow> t) of
        Inl e \<Rightarrow> Inl e
      | Inr ft \<Rightarrow>
     (case data ''context'' of
        None \<Rightarrow> Inl (KeyError ''context'')
      | Some c \<Rightarrow>
     (case (fid, sid, c) of
        (PStr f, PStr s, PNone) \<Rightarrow>
          Inr \<lparr>flow_id = f, step_id = s, frame_type = ft, context = None\<rparr>
      | (PStr f, PStr s, PDict d) \<Rightarrow>
          Inr \<lparr>flow_id = f, step_id = s, frame_type = ft, context = Some d\<rparr>
      | _ \<Rightarrow> Inl (TypeMismatch ''FlowStackFrame''))))))"

text \<open>
  \<open>FlowStackFrame.with_updated_id\<close>: the constructor is called with three arguments, so
  the fourth field takes its default, \<open>None\<close>.
\<close>

definition with_updated_id :: "FlowStackFrame \<Rightarrow> string \<Rightarrow> FlowStackFrame" where
  "with_updated_id self sid =
     \<lparr>flow_id = flow_id self, step_id = sid, frame_type = frame_type self, context = None\<rparr>"

datatype FlowStack = FlowStack (frames: "FlowStackFrame list")

text \<open>
  The list comprehension of \<open>FlowStack.from_dict\<close> converts the records in order and stops
  at the first one that raises.
\<close>

fun frames_from_dict :: "(string \<rightharpoonup> pyval) list \<Rightarrow> stack_error + FlowStackFrame list" where
  "frames_from_dict [] = Inr []"
| "frames_from_dict (frame # data) =
     (case FlowStackFrame_from_dict frame of
        Inl e \<Rightarrow> Inl e
      | Inr f \<Rightarrow> (case frames_from_dict data of Inl e \<Rightarrow> Inl e | Inr fs \<Rightarrow> Inr (f # fs)))"

definition FlowStack_from_dict :: "(string \<rightharpoonup> pyval) list \<Rightarrow> stack_error + FlowStack" where
  "FlowStack_from_dict data =
     (case frames_from_dict data of Inl e \<Rightarrow> Inl e | Inr fs \<Rightarrow> Inr (FlowStack fs))"

definition FlowStack_as_dict :: "FlowStack \<Rightarrow> (string \<rightharpoonup> pyval) list" where
  "FlowStack_as_dict self = map FlowStackFrame_as_dict (frames self)"

text \<open>
  \<open>FlowStack.push\<close>, \<open>pop\<close>, \<open>top\<close> and \<open>is_empty\<close> work on the list of frames, whose last
  element is the top. \<open>list.insert(i, x)\<close> counts a negative index from the end and clamps
  it into the list; \<open>list.pop()\<close> raises \<open>IndexError\<close> on an empty list.
\<close>

definition py_insert :: "int \<Rightarrow> 'a \<Rightarrow> 'a list \<Rightarrow> 'a list" where
  "py_insert i x xs =
     (let n = int (length xs);
          j = (if i < 0 then max 0 (n + i) else min i n)
      in take (nat j) xs @ x # drop (nat j) xs)"

definition push :: "'a \<Rightarrow> int option \<Rightarrow> 'a list \<Rightarrow> 'a list" where
  "push frame index fs =
     (case index of None \<Rightarrow> fs @ [frame] | Some i \<Rightarrow> py_insert i frame fs)"

definition is_empty_stack :: "'a list \<Rightarrow> bool" where
  "is_empty_stack fs = (length fs = 0)"

definition top_stack :: "'a list \<Rightarrow> 'a option" where
  "top_stack fs = (if is_empty_stack fs then None else Some (last fs))"

section \<open>Flows, trackers and predictions (interfaces used by the executor)\<close>

datatype FlowLink =
    StaticFlowLink string
  | IfFlowLink "string option" string
  | ElseFlowLink string

fun target :: "FlowLink \<Rightarrow> string" where
  "target (StaticFlowLink t) = t"
| "target (IfFlowLink c t) = t"
| "target (ElseFlowLink t) = t"

type_synonym SlotRejection = "string \<times> string"

text \<open>
  The step classes the executor dispatches on, with the fields it reads:
  \<open>collect\<close>, \<open>utter\<close>, \<open>rejections\<close>, \<open>ask_before_filling\<close>, \<open>reset_after_flow_ends\<close> of a
  collect step, \<open>action\<close> of an action step, \<open>link\<close> of a link step, the key/value pairs of
  a set-slots step. \<open>InternalFlowStep\<close> stands for every class the dispatch does not name.
\<close>

datatype FlowStepKind =
    CollectInformationFlowStep string string "SlotRejection list" bool bool
  | ActionFlowStep "string option"
  | LinkFlowStep string
  | SetSlotsFlowStep "(string \<times> pyval) list"
  | BranchFlowStep
  | GenerateResponseFlowStep
  | EndFlowStep
  | InternalFlowStep

record FlowStep =
  id_step :: string
  next_links :: "FlowLink list"
  kind :: FlowStepKind

record Flow =
  id_flow :: string
  readable_name :: string
  steps :: "FlowStep list"

text \<open>
  Modelled from the spec: the step ids of the catalog-wide terminal step and of its
  continuation, and the two action names, are constants of \<open>rasa.shared.core\<close> that are not
  among the sources; the spec names them (terminal step, "wait for user", "send text")
  without their strings, and no property below depends on the strings.
\<close>

definition END_STEP :: string where
  "END_STEP = ''END''"

definition continue_step_for_id :: "string \<Rightarrow> string" where
  "continue_step_for_id step = ''NEXT:'' @ step"

definition ACTION_LISTEN_NAME :: string where
  "ACTION_LISTEN_NAME = ''action_listen''"

definition ACTION_SEND_TEXT_NAME :: string where
  "ACTION_SEND_TEXT_NAME = ''action_send_text''"

datatype Event = SlotSet string pyval | OtherEvent string

record Slot =
  slot_value :: pyval
  initial_value :: pyval
  has_been_set :: bool

record DialogueStateTracker =
  slots :: "string \<rightharpoonup> Slot"
  events :: "Event list"

text \<open>
  Modelled from the spec: the conversation state is an append-only event log with a derived
  slot-value view (section 9); applying a slot-set event to a known slot stores the value,
  and every applied event is appended to the log.
\<close>

fun apply_event :: "Event \<Rightarrow> DialogueStateTracker \<Rightarrow> DialogueStateTracker" where
  "apply_event (SlotSet k v) t =
     t\<lparr>slots := (case slots t k of
                   None \<Rightarrow> slots t
                 | Some s \<Rightarrow> (slots t)(k \<mapsto> s\<lparr>slot_value := v, has_been_set := True\<rparr>)),
       events := events t @ [SlotSet k v]\<rparr>"
| "apply_event (OtherEvent e) t = t\<lparr>events := events t @ [OtherEvent e]\<rparr>"

definition update_with_events :: "DialogueStateTracker \<Rightarrow> Event list \<Rightarrow> DialogueStateTracker" where
  "update_with_events t evs = fold apply_event evs t"

definition current_slot_values :: "DialogueStateTracker \<Rightarrow> (string \<rightharpoonup> pyval)" where
  "current_slot_values t = (\<lambda>k. map_option slot_value (slots t k))"

record FlowActionPrediction =
  action_name :: "string option"
  score :: real
  metadata :: "(string \<times> pyval) list option"
  events_of_prediction :: "Event list"

datatype FlowStepResult =
    ContinueFlowWithNextStep "Event list"
  | PauseFlowReturnPrediction FlowActionPrediction

fun events_of_result :: "FlowStepResult \<Rightarrow> Event list" where
  "events_of_result (ContinueFlowWithNextStep evs) = evs"
| "events_of_result (PauseFlowReturnPrediction p) = events_of_prediction p"

fun is_continue :: "FlowStepResult \<Rightarrow> bool" where
  "is_continue (ContinueFlowWithNextStep evs) = True"
| "is_continue (PauseFlowReturnPrediction p) = False"

section \<open>Dialogue stack frames\<close>

text \<open>
  Modelled from the spec: the frame classes of \<open>rasa.dialogue_understanding\<close> are not among
  the sources. The executor builds a user-flow frame from a flow id and a frame type (its
  cursor defaults to the start step), and the three pattern frames from the fields shown;
  user-flow and pattern frames are the flow frames (\<open>BaseFlowStackFrame\<close>), which carry a
  cursor. The frame type of a user-flow frame is one of the frame types of section 3 of
  the spec, those of \<open>StackFrameType\<close> above. \<open>OtherStackFrame\<close> stands for a frame that
  is no flow frame.
\<close>

datatype DialogueStackFrame =
    UserFlowStackFrame string string StackFrameType
  | CollectInformationPatternFlowStackFrame string string string "SlotRejection list"
  | CompletedPatternFlowStackFrame string "string option"
  | ContinueInterruptedPatternFlowStackFrame string string
  | OtherStackFrame string

fun is_BaseFlowStackFrame :: "DialogueStackFrame \<Rightarrow> bool" where
  "is_BaseFlowStackFrame (OtherStackFrame n) = False"
| "is_BaseFlowStackFrame f = True"

fun is_UserFlowStackFrame :: "DialogueStackFrame \<Rightarrow> bool" where
  "is_UserFlowStackFrame (UserFlowStackFrame fid sid ft) = True"
| "is_UserFlowStackFrame f = False"

fun set_step_id :: "string \<Rightarrow> DialogueStackFrame \<Rightarrow> DialogueStackFrame" where
  "set_step_id s (UserFlowStackFrame fid sid ft) = UserFlowStackFrame fid s ft"
| "set_step_id s (CollectInformationPatternFlowStackFrame sid c u r) =
     CollectInformationPatternFlowStackFrame s c u r"
| "set_step_id s (CompletedPatternFlowStackFrame sid n) = CompletedPatternFlowStackFrame s n"
| "set_step_id s (ContinueInterruptedPatternFlowStackFrame sid n) =
     ContinueInterruptedPatternFlowStackFrame s n"
| "set_step_id s (OtherStackFrame n) = OtherStackFrame n"

type_synonym DialogueStack = "DialogueStackFrame list"

text \<open>
  The exceptions of a turn. \<open>Raised\<close> wraps an exception of a collaborator (template
  engine, predicate engine, response generator), which the executor never raises itself.
\<close>

datatype exn = Exn string

datatype flow_error =
    FlowException string
  | FlowCircuitBreakerTrippedException DialogueStack nat
  | IndexError
  | AttributeError
  | Raised exn

text \<open>
  Modelled from the spec: \<open>DialogueStack\<close> is not among the sources; its \<open>push\<close>, \<open>top\<close> and
  \<open>is_empty\<close> are those of section 4.1, which \<open>FlowStack\<close> above implements, and \<open>pop\<close> fails
  on an empty stack.
\<close>

definition pop :: "DialogueStack \<Rightarrow> flow_error + (DialogueStackFrame \<times> DialogueStack)" where
  "pop fs = (if fs = [] then Inl IndexError else Inr (last fs, butlast fs))"

text \<open>
  Modelled from the spec: \<open>top_user_flow_frame\<close> is the nearest user-flow frame, scanning
  from the top downward (section 4.4).
\<close>

definition top_user_flow_frame :: "DialogueStack \<Rightarrow> DialogueStackFrame option" where
  "top_user_flow_frame stack = find is_UserFlowStackFrame (rev stack)"

section \<open>Collaborators\<close>

datatype Predicate = Predicate string

text \<open>
  What the executor calls and does not define: the template engine (\<open>Template(text).render\<close>),
  the predicate engine (the constructor \<open>Predicate\<close> and \<open>evaluate\<close>), the response generator
  of a generate step, each of which may raise; the catalog lookups \<open>frame.flow(flows)\<close>,
  \<open>frame.step(flows)\<close> and \<open>flow.step_by_id(id)\<close>, which give \<open>None\<close> when nothing is found;
  and the context of a frame. They are parameters of the model.
\<close>

record env =
  render :: "string \<Rightarrow> (string \<rightharpoonup> pyval) \<Rightarrow> exn + string"
  new_Predicate :: "string \<Rightarrow> exn + Predicate"
  evaluate :: "Predicate \<Rightarrow> (string \<rightharpoonup> pyval) \<Rightarrow> exn + bool"
  generate :: "FlowStep \<Rightarrow> DialogueStateTracker \<Rightarrow> exn + string"
  frame_flow :: "DialogueStackFrame \<Rightarrow> Flow list \<Rightarrow> Flow option"
  frame_step :: "DialogueStackFrame \<Rightarrow> Flow list \<Rightarrow> FlowStep option"
  step_by_id :: "Flow \<Rightarrow> string option \<Rightarrow> FlowStep option"
  frame_context :: "DialogueStackFrame \<Rightarrow> (string \<times> pyval) list"

text \<open>
  Modelled from the spec: \<open>current_context\<close> is the top frame's context, or empty if there is
  no top (section 4.1).
\<close>

definition current_context :: "env \<Rightarrow> DialogueStack \<Rightarrow> (string \<times> pyval) list" where
  "current_context E stack =
     (case top_stack stack of None \<Rightarrow> [] | Some f \<Rightarrow> frame_context E f)"

section \<open>The flow executor (\<open>rasa/core/policies/flows/flow_executor.py\<close>)\<close>

definition MAX_NUMBER_OF_STEPS :: nat where
  "MAX_NUMBER_OF_STEPS = 250"

definition render_template_variables :: "env \<Rightarrow> string \<Rightarrow> (string \<rightharpoonup> pyval) \<Rightarrow> exn + string" where
  "render_template_variables E text ctx = render E text ctx"

text \<open>
  \<open>is_condition_satisfied\<close>. The document is \<open>{"context": context}\<close> updated with the slot
  values. The template is rendered and the predicate constructed before the \<open>try\<close>; only
  \<open>p.evaluate(document)\<close> is inside it, and there every exception gives \<open>False\<close>.
\<close>

definition is_condition_satisfied ::
  "env \<Rightarrow> string \<Rightarrow> (string \<times> pyval) list \<Rightarrow> DialogueStateTracker \<Rightarrow> flow_error + bool" where
  "is_condition_satisfied E predicate ctx tracker =
     (let ctx' = [''context'' \<mapsto> PDict ctx];
          document = ctx' ++ current_slot_values tracker
      in case render_template_variables E predicate ctx' of
           Inl e \<Rightarrow> Inl (Raised e)
         | Inr rendered \<Rightarrow>
        (case new_Predicate E rendered of
           Inl e \<Rightarrow> Inl (Raised e)
         | Inr p \<Rightarrow>
        (case evaluate E p document of
           Inr b \<Rightarrow> Inr b
         | Inl e \<Rightarrow> Inr False)))"

definition is_step_end_of_flow :: "FlowStep \<Rightarrow> bool" where
  "is_step_end_of_flow step =
     (id_step step = END_STEP \<or> id_step step = continue_step_for_id END_STEP)"

text \<open>
  The first loop of \<open>select_next_step_id\<close>: the links in order; a conditional link whose
  condition is missing or empty is passed over, the first one whose condition is satisfied
  ends the loop with its target, and an exception of the evaluation leaves the function.
\<close>

fun evaluate_if_conditions ::
  "env \<Rightarrow> FlowLink list \<Rightarrow> (string \<times> pyval) list \<Rightarrow> DialogueStateTracker
     \<Rightarrow> flow_error + string option" where
  "evaluate_if_conditions E [] ctx tracker = Inr None"
| "evaluate_if_conditions E (IfFlowLink (Some c) t # links) ctx tracker =
     (if c \<noteq> [] then
        (case is_condition_satisfied E c ctx tracker of
           Inl e \<Rightarrow> Inl e
         | Inr True \<Rightarrow> Inr (Some t)
         | Inr False \<Rightarrow> evaluate_if_conditions E links ctx tracker)
      else evaluate_if_conditions E links ctx tracker)"
| "evaluate_if_conditions E (link # links) ctx tracker =
     evaluate_if_conditions E links ctx tracker"

text \<open>The second loop: the target of the first else link.\<close>

fun evaluate_else_condition :: "FlowLink list \<Rightarrow> string option" where
  "evaluate_else_condition [] = None"
| "evaluate_else_condition (ElseFlowLink t # links) = Some t"
| "evaluate_else_condition (link # links) = evaluate_else_condition links"

definition select_next_step_id ::
  "env \<Rightarrow> FlowStep \<Rightarrow> (string \<times> pyval) list \<Rightarrow> DialogueStateTracker
     \<Rightarrow> flow_error + string option" where
  "select_next_step_id E current ctx tracker =
     (case next_links current of
        [StaticFlowLink t] \<Rightarrow> Inr (Some t)
      | links \<Rightarrow>
         (case evaluate_if_conditions E links ctx tracker of
            Inl e \<Rightarrow> Inl e
          | Inr (Some t) \<Rightarrow> Inr (Some t)
          | Inr None \<Rightarrow>
             (case evaluate_else_condition links of
                Some t \<Rightarrow> Inr (Some t)
              | None \<Rightarrow>
                 if links \<noteq> [] then Inr None
                 else if id_step current = END_STEP then Inr None
                 else (case kind current of
                         LinkFlowStep l \<Rightarrow> Inr (Some END_STEP)
                       | _ \<Rightarrow> Inr None))))"

text \<open>
  \<open>select_next_step\<close>: a missing current step fails on \<open>current.next\<close>, a missing flow on
  \<open>current_flow.step_by_id\<close>, both with \<open>AttributeError\<close>.
\<close>

definition select_next_step ::
  "env \<Rightarrow> FlowStep option \<Rightarrow> Flow option \<Rightarrow> DialogueStack \<Rightarrow> DialogueStateTracker
     \<Rightarrow> flow_error + FlowStep option" where
  "select_next_step E current_step current_flow stack tracker =
     (case current_step of
        None \<Rightarrow> Inl AttributeError
      | Some cur \<Rightarrow>
         (case select_next_step_id E cur (current_context E stack) tracker of
            Inl e \<Rightarrow> Inl e
          | Inr next_id \<Rightarrow>
             (case current_flow of
                None \<Rightarrow> Inl AttributeError
              | Some flow \<Rightarrow> Inr (step_by_id E flow next_id))))"

definition advance_top_flow_on_stack :: "string \<Rightarrow> DialogueStack \<Rightarrow> DialogueStack" where
  "advance_top_flow_on_stack updated_id stack =
     (case top_stack stack of
        None \<Rightarrow> stack
      | Some frame \<Rightarrow>
          if is_BaseFlowStackFrame frame then butlast stack @ [set_step_id updated_id frame]
          else stack)"

definition events_from_set_slots_step :: "(string \<times> pyval) list \<Rightarrow> Event list" where
  "events_from_set_slots_step slot_list = map (\<lambda>(k, v). SlotSet k v) slot_list"

definition events_for_collect_step ::
  "string \<Rightarrow> bool \<Rightarrow> DialogueStateTracker \<Rightarrow> Event list" where
  "events_for_collect_step collect ask_before_filling tracker =
     (case slots tracker collect of
        None \<Rightarrow> []
      | Some slot \<Rightarrow>
          if has_been_set slot \<and> ask_before_filling
          then [SlotSet collect (initial_value slot)] else [])"

definition trigger_pattern_continue_interrupted ::
  "env \<Rightarrow> DialogueStackFrame \<Rightarrow> DialogueStack \<Rightarrow> Flow list \<Rightarrow> DialogueStack" where
  "trigger_pattern_continue_interrupted E current_frame stack flows =
     (let previous_user_flow_frame = top_user_flow_frame stack;
          previous_user_flow_step =
            (case previous_user_flow_frame of None \<Rightarrow> None | Some f \<Rightarrow> frame_step E f flows);
          previous_user_flow =
            (case previous_user_flow_frame of None \<Rightarrow> None | Some f \<Rightarrow> frame_flow E f flows)
      in case (current_frame, previous_user_flow_step, previous_user_flow) of
           (UserFlowStackFrame fid sid ft, Some step, Some flow) \<Rightarrow>
             if ft = INTERRUPT \<and> \<not> is_step_end_of_flow step
             then push (ContinueInterruptedPatternFlowStackFrame START_STEP (readable_name flow))
                    None stack
             else stack
         | _ \<Rightarrow> stack)"

definition trigger_pattern_completed ::
  "env \<Rightarrow> DialogueStackFrame \<Rightarrow> DialogueStack \<Rightarrow> Flow list \<Rightarrow> DialogueStack" where
  "trigger_pattern_completed E current_frame stack flows =
     (if \<not> is_empty_stack stack \<or> \<not> is_UserFlowStackFrame current_frame then stack
      else
        (let completed_flow = frame_flow E current_frame flows;
             completed_flow_name =
               (case completed_flow of None \<Rightarrow> None | Some f \<Rightarrow> Some (readable_name f))
         in push (CompletedPatternFlowStackFrame START_STEP completed_flow_name) None stack))"

definition trigger_pattern_ask_collect_information ::
  "string \<Rightarrow> DialogueStack \<Rightarrow> SlotRejection list \<Rightarrow> string \<Rightarrow> DialogueStack" where
  "trigger_pattern_ask_collect_information collect stack rejections utter =
     push (CollectInformationPatternFlowStackFrame START_STEP collect utter rejections) None stack"

text \<open>
  \<open>reset_scoped_slots\<close>. The first loop over the steps appends a reset event for each
  collect step that resets after the flow ends and records the slot of every other collect
  step; the comprehension then takes, in order, the keys of all set-slots steps that are
  not recorded, and each gets a reset event after those of the first loop.
\<close>

definition reset_slot :: "string \<Rightarrow> DialogueStateTracker \<Rightarrow> Event" where
  "reset_slot slot_name tracker =
     SlotSet slot_name
       (case slots tracker slot_name of None \<Rightarrow> PNone | Some slot \<Rightarrow> initial_value slot)"

fun collect_step_resets :: "FlowStep list \<Rightarrow> DialogueStateTracker \<Rightarrow> Event list" where
  "collect_step_resets [] tracker = []"
| "collect_step_resets (step # rest) tracker =
     (case kind step of
        CollectInformationFlowStep collect utter rejections ask reset_after_flow_ends \<Rightarrow>
          if reset_after_flow_ends
          then reset_slot collect tracker # collect_step_resets rest tracker
          else collect_step_resets rest tracker
      | _ \<Rightarrow> collect_step_resets rest tracker)"

fun not_resettable_slot_names :: "FlowStep list \<Rightarrow> string set" where
  "not_resettable_slot_names [] = {}"
| "not_resettable_slot_names (step # rest) =
     (case kind step of
        CollectInformationFlowStep collect utter rejections ask reset_after_flow_ends \<Rightarrow>
          if reset_after_flow_ends
          then not_resettable_slot_names rest
          else insert collect (not_resettable_slot_names rest)
      | _ \<Rightarrow> not_resettable_slot_names rest)"

fun set_slots_keys :: "FlowStep \<Rightarrow> string list" where
  "set_slots_keys step =
     (case kind step of SetSlotsFlowStep slot_list \<Rightarrow> map fst slot_list | _ \<Rightarrow> [])"

definition resettable_set_slots :: "FlowStep list \<Rightarrow> string list" where
  "resettable_set_slots all_steps =
     filter (\<lambda>key. key \<notin> not_resettable_slot_names all_steps)
       (concat (map set_slots_keys all_steps))"

definition reset_scoped_slots :: "Flow \<Rightarrow> DialogueStateTracker \<Rightarrow> Event list" where
  "reset_scoped_slots current_flow tracker =
     collect_step_resets (steps current_flow) tracker
     @ map (\<lambda>name. reset_slot name tracker) (resettable_set_slots (steps current_flow))"

text \<open>
  \<open>run_step\<close> returns the stack as the step left it together with the step result.
  A string or \<open>None\<close> is false for \<open>not step.action\<close> when it is \<open>None\<close> or empty.
\<close>

definition run_step ::
  "env \<Rightarrow> FlowStep \<Rightarrow> Flow \<Rightarrow> DialogueStack \<Rightarrow> DialogueStateTracker \<Rightarrow> string list
     \<Rightarrow> Flow list \<Rightarrow> flow_error + (DialogueStack \<times> FlowStepResult)" where
  "run_step E step flow stack tracker available_actions flows =
     (case kind step of
        CollectInformationFlowStep collect utter rejections ask reset_after_flow_ends \<Rightarrow>
          Inr (trigger_pattern_ask_collect_information collect stack rejections utter,
               ContinueFlowWithNextStep (events_for_collect_step collect ask tracker))
      | ActionFlowStep action \<Rightarrow>
          (case action of
             None \<Rightarrow> Inl (FlowException ''Action not specified for step'')
           | Some a \<Rightarrow>
               if a = [] then Inl (FlowException ''Action not specified for step'')
               else
                 (case render_template_variables E a
                         [''context'' \<mapsto> PDict (current_context E stack)] of
                    Inl e \<Rightarrow> Inl (Raised e)
                  | Inr rendered \<Rightarrow>
                      if rendered \<in> set available_actions
                      then Inr (stack,
                                PauseFlowReturnPrediction
                                  \<lparr>action_name = Some rendered, score = 1,
                                   metadata = None, events_of_prediction = []\<rparr>)
                      else Inr (stack, ContinueFlowWithNextStep [])))
      | LinkFlowStep link \<Rightarrow>
          Inr (push (UserFlowStackFrame link START_STEP LINK) (Some (- 1)) stack,
               ContinueFlowWithNextStep [])
      | SetSlotsFlowStep slot_list \<Rightarrow>
          Inr (stack, ContinueFlowWithNextStep (events_from_set_slots_step slot_list))
      | BranchFlowStep \<Rightarrow> Inr (stack, ContinueFlowWithNextStep [])
      | GenerateResponseFlowStep \<Rightarrow>
          (case generate E step tracker of
             Inl e \<Rightarrow> Inl (Raised e)
           | Inr generated \<Rightarrow>
               Inr (stack,
                    PauseFlowReturnPrediction
                      \<lparr>action_name = Some ACTION_SEND_TEXT_NAME, score = 1,
                       metadata = Some [(''message'', PDict [(''text'', PStr generated)])],
                       events_of_prediction = []\<rparr>))
      | EndFlowStep \<Rightarrow>
          (case pop stack of
             Inl e \<Rightarrow> Inl e
           | Inr (current_frame, stack1) \<Rightarrow>
               (let stack2 = trigger_pattern_continue_interrupted E current_frame stack1 flows;
                    stack3 = trigger_pattern_completed E current_frame stack2 flows;
                    reset_events = reset_scoped_slots flow tracker
                in Inr (stack3, ContinueFlowWithNextStep reset_events)))
      | InternalFlowStep \<Rightarrow> Inl (FlowException ''Unknown flow step type''))"

text \<open>
  One pass through the body of the \<open>while\<close> loop of \<open>select_next_action\<close>, after the step
  counter has been checked. \<open>break\<close> leaves with the listen prediction; \<open>continue\<close> keeps the
  step result, the stack and the tracker as they are. The flow is known when \<open>run_step\<close> is
  reached, since \<open>select_next_step\<close> has failed otherwise.
\<close>

definition listen_prediction :: FlowStepResult where
  "listen_prediction =
     PauseFlowReturnPrediction
       \<lparr>action_name = Some ACTION_LISTEN_NAME, score = 1, metadata = None,
        events_of_prediction = []\<rparr>"

definition loop_body ::
  "env \<Rightarrow> Flow list \<Rightarrow> string list \<Rightarrow> FlowStepResult \<Rightarrow> DialogueStack \<Rightarrow> DialogueStateTracker
     \<Rightarrow> flow_error + (FlowStepResult \<times> DialogueStack \<times> DialogueStateTracker)" where
  "loop_body E flows available_actions step_result stack tracker =
     (case top_stack stack of
        None \<Rightarrow> Inr (listen_prediction, stack, tracker)
      | Some active_frame \<Rightarrow>
          if \<not> is_BaseFlowStackFrame active_frame
          then Inr (listen_prediction, stack, tracker)
          else
            (let current_flow = frame_flow E active_frame flows in
             case select_next_step E (frame_step E active_frame flows) current_flow
                    stack tracker of
               Inl e \<Rightarrow> Inl e
             | Inr None \<Rightarrow> Inr (step_result, stack, tracker)
             | Inr (Some current_step) \<Rightarrow>
                 (case current_flow of
                    None \<Rightarrow> Inl AttributeError
                  | Some flow \<Rightarrow>
                      (case run_step E current_step flow
                              (advance_top_flow_on_stack (id_step current_step) stack)
                              tracker available_actions flows of
                         Inl e \<Rightarrow> Inl e
                       | Inr (stack', result) \<Rightarrow>
                           Inr (result, stack',
                                update_with_events tracker (events_of_result result))))))"

text \<open>
  The \<open>while\<close> loop, with the number of steps taken so far. The counter is incremented
  first, and the loop is left with the circuit breaker's exception when it is then above
  the ceiling.
\<close>

function loop ::
  "env \<Rightarrow> Flow list \<Rightarrow> string list \<Rightarrow> nat \<Rightarrow> FlowStepResult \<Rightarrow> DialogueStack
     \<Rightarrow> DialogueStateTracker
     \<Rightarrow> flow_error + (FlowStepResult \<times> DialogueStack \<times> DialogueStateTracker)" where
  "loop E flows available_actions number_of_steps_taken step_result stack tracker =
     (if \<not> is_continue step_result then Inr (step_result, stack, tracker)
      else if Suc number_of_steps_taken > MAX_NUMBER_OF_STEPS
      then Inl (FlowCircuitBreakerTrippedException stack (Suc number_of_steps_taken))
      else
        (case loop_body E flows available_actions step_result stack tracker of
           Inl e \<Rightarrow> Inl e
         | Inr (result, stack', tracker') \<Rightarrow>
             loop E flows available_actions (Suc number_of_steps_taken) result stack' tracker'))"
  by pat_completeness auto
termination
  by (relation "measure (\<lambda>(E, flows, acts, n, r, s, t). Suc MAX_NUMBER_OF_STEPS - n)") auto

declare loop.simps [simp del]

text \<open>
  \<open>select_next_action\<close>: the loop starts from a continue result with the counter at 0; the
  prediction of a pause takes all events added to the tracker's copy during the loop.
\<close>

definition select_next_action ::
  "env \<Rightarrow> DialogueStack \<Rightarrow> DialogueStateTracker \<Rightarrow> string list \<Rightarrow> Flow list
     \<Rightarrow> flow_error + (DialogueStack \<times> FlowActionPrediction)" where
  "select_next_action E stack tracker available_actions flows =
     (let number_of_initial_events = length (events tracker) in
      case loop E flows available_actions 0 (ContinueFlowWithNextStep []) stack tracker of
        Inl e \<Rightarrow> Inl e
      | Inr (step_result, stack', tracker') \<Rightarrow>
          (let gathered_events = drop number_of_initial_events (events tracker') in
           case step_result of
             PauseFlowReturnPrediction prediction \<Rightarrow>
               Inr (stack', prediction\<lparr>events_of_prediction := gathered_events\<rparr>)
           | ContinueFlowWithNextStep evs \<Rightarrow>
               Inr (stack', \<lparr>action_name = None, score = 0, metadata = None,
                            events_of_prediction = []\<rparr>)))"

text \<open>
  The loop without its counter: the state after \<open>k\<close> passes through the body, provided
  the loop condition held before each of them, none of them raised, and the loop condition
  holds after the last one; \<open>None\<close> if the loop has ended or failed before.
\<close>

fun continued_passes ::
  "env \<Rightarrow> Flow list \<Rightarrow> string list \<Rightarrow> nat \<Rightarrow> FlowStepResult \<Rightarrow> DialogueStack
     \<Rightarrow> DialogueStateTracker
     \<Rightarrow> (FlowStepResult \<times> DialogueStack \<times> DialogueStateTracker) option" where
  "continued_passes E flows available_actions 0 step_result stack tracker =
     (if is_continue step_result then Some (step_result, stack, tracker) else None)"
| "continued_passes E flows available_actions (Suc k) step_result stack tracker =
     (if is_continue step_result then
        (case loop_body E flows available_actions step_result stack tracker of
           Inl e \<Rightarrow> None
         | Inr (result, stack', tracker') \<Rightarrow>
             continued_passes E flows available_actions k result stack' tracker')
      else None)"

section \<open>Example collaborators, flows and stacks\<close>

text \<open>
  Collaborators to run the executor on examples: a template without delimiters renders to
  itself and the unterminated expression \<open>{{\<close> is a syntax error of the template engine;
  the predicates \<open>true\<close> and \<open>false\<close> evaluate to their values and any other text is invalid;
  a user-flow frame finds its flow and its step in the catalog by id.
\<close>

definition example_env :: env where
  "example_env =
     \<lparr>render = (\<lambda>text ctx. if text = ''{{'' then Inl (Exn ''TemplateSyntaxError'') else Inr text),
      new_Predicate = (\<lambda>text. Inr (Predicate text)),
      evaluate = (\<lambda>p doc. case p of Predicate text \<Rightarrow>
                    if text = ''true'' then Inr True
                    else if text = ''false'' then Inr False
                    else Inl (Exn ''InvalidPredicate'')),
      generate = (\<lambda>step tracker. Inr ''generated text''),
      frame_flow = (\<lambda>frame flows. case frame of
                      UserFlowStackFrame fid sid ft \<Rightarrow> find (\<lambda>f. id_flow f = fid) flows
                    | _ \<Rightarrow> None),
      frame_step = (\<lambda>frame flows. case frame of
                      UserFlowStackFrame fid sid ft \<Rightarrow>
                        (case find (\<lambda>f. id_flow f = fid) flows of
                           None \<Rightarrow> None
                         | Some f \<Rightarrow> find (\<lambda>s. id_step s = sid) (steps f))
                    | _ \<Rightarrow> None),
      step_by_id = (\<lambda>flow sid. case sid of
                      None \<Rightarrow> None
                    | Some i \<Rightarrow> find (\<lambda>s. id_step s = i) (steps flow)),
      frame_context = (\<lambda>frame. [])\<rparr>"

definition example_tracker :: DialogueStateTracker where
  "example_tracker = \<lparr>slots = Map.empty, events = []\<rparr>"





text \<open>A branch step whose outgoing links are exactly one static link.\<close>

definition static_link_step :: FlowStep where
  "static_link_step =
     \<lparr>id_step = ''a'', next_links = [StaticFlowLink ''b''], kind = BranchFlowStep\<rparr>"

text \<open>A branch step and an action step whose only link targets the step itself.\<close>

definition self_branch_step :: FlowStep where
  "self_branch_step =
     \<lparr>id_step = ''a'', next_links = [StaticFlowLink ''a''], kind = BranchFlowStep\<rparr>"

definition self_branch_flow :: Flow where
  "self_branch_flow = \<lparr>id_flow = ''f'', readable_name = ''F'', steps = [self_branch_step]\<rparr>"

definition self_action_step :: FlowStep where
  "self_action_step =
     \<lparr>id_step = ''a'', next_links = [StaticFlowLink ''a''],
      kind = ActionFlowStep (Some ''a1'')\<rparr>"

definition self_action_flow :: Flow where
  "self_action_flow = \<lparr>id_flow = ''f'', readable_name = ''F'', steps = [self_action_step]\<rparr>"

definition frame_at_a :: DialogueStackFrame where
  "frame_at_a = UserFlowStackFrame ''f'' ''a'' REGULAR"

text \<open>
  A flow with two collect steps for the slot \<open>x\<close>, the first opting out of the reset at the
  end of the flow and the second not, and a set-slots step writing \<open>x\<close>.
\<close>

definition opt_out_step :: FlowStep where
  "opt_out_step =
     \<lparr>id_step = ''ask'', next_links = [StaticFlowLink ''ask_again''],
      kind = CollectInformationFlowStep ''x'' ''utter_ask_x'' [] True False\<rparr>"

definition opt_in_step :: FlowStep where
  "opt_in_step =
     \<lparr>id_step = ''ask_again'', next_links = [StaticFlowLink ''set''],
      kind = CollectInformationFlowStep ''x'' ''utter_ask_x'' [] True True\<rparr>"

definition set_x_step :: FlowStep where
  "set_x_step =
     \<lparr>id_step = ''set'', next_links = [StaticFlowLink ''END''],
      kind = SetSlotsFlowStep [(''x'', PInt 1)]\<rparr>"

definition two_collects_flow :: Flow where
  "two_collects_flow =
     \<lparr>id_flow = ''g'', readable_name = ''G'', steps = [opt_out_step, opt_in_step, set_x_step]\<rparr>"

definition one_collect_flow :: Flow where
  "one_collect_flow =
     \<lparr>id_flow = ''h'', readable_name = ''H'', steps = [opt_out_step, set_x_step]\<rparr>"

definition end_step :: FlowStep where
  "end_step = \<lparr>id_step = ''END'', next_links = [], kind = EndFlowStep\<rparr>"

definition link_step :: FlowStep where
  "link_step = \<lparr>id_step = ''go'', next_links = [], kind = LinkFlowStep ''B''\<rparr>"

section \<open>Round trip and copies of stack frames\<close>

lemma StackFrameType_from_str_value:
  "StackFrameType_from_str (PStr (StackFrameType_value t)) = Inr t"
  by (cases t) (simp_all add: StackFrameType_from_str_def)

lemma FlowStackFrame_round_trip:
  "FlowStackFrame_from_dict (FlowStackFrame_as_dict f) = Inr f"
proof (cases "context f")
  case None
  then show ?thesis
    by (simp add: FlowStackFrame_from_dict_def FlowStackFrame_as_dict_def
        StackFrameType_from_str_value context_to_pyval_def)
next
  case (Some d)
  then show ?thesis
    by (simp add: FlowStackFrame_from_dict_def FlowStackFrame_as_dict_def
        StackFrameType_from_str_value context_to_pyval_def)
qed

lemma frames_round_trip:
  "frames_from_dict (map FlowStackFrame_as_dict fs) = Inr fs"
  by (induction fs) (simp_all add: FlowStackFrame_round_trip)

text \<open>
  C7. Deserializing the serialized form of a stack gives the stack back: every frame, in
  order, with its flow id, step id, frame type and context. All seven frame types are
  recognized by \<open>from_str\<close>, so no frame of a stack is rejected.
\<close>

theorem FlowStack_round_trip:
  "FlowStack_from_dict (FlowStack_as_dict S) = Inr S"
  by (cases S) (simp add: FlowStack_from_dict_def FlowStack_as_dict_def frames_round_trip)

text \<open>
  C10. The copy made by \<open>with_updated_id\<close> keeps the flow id and the frame type, takes the
  given step id, and has no context, whatever the context of the original was.
\<close>

theorem with_updated_id_drops_context:
  "flow_id (with_updated_id f s) = flow_id f
   \<and> frame_type (with_updated_id f s) = frame_type f
   \<and> step_id (with_updated_id f s) = s
   \<and> context (with_updated_id f s) = None
   \<and> with_updated_id (f\<lparr>context := Some c\<rparr>) s = with_updated_id (f\<lparr>context := None\<rparr>) s"
  by (simp add: with_updated_id_def)

section \<open>The transition selector\<close>

text \<open>
  C9. A step whose outgoing links are exactly one static link resolves to that link's
  target for every collaborator (so also for a template or predicate engine that raises
  on every input), every evaluation context and every tracker: nothing is evaluated.
\<close>

theorem select_next_step_id_single_static_link:
  "next_links current = [StaticFlowLink t] \<Longrightarrow>
   select_next_step_id E current ctx tracker = Inr (Some t)"
  by (simp add: select_next_step_id_def)

theorem select_next_step_id_single_static_link_witness:
  "next_links static_link_step = [StaticFlowLink ''b'']
   \<and> select_next_step_id example_env static_link_step [] example_tracker = Inr (Some ''b'')"
  using select_next_step_id_single_static_link [of static_link_step "''b''" example_env "[]" example_tracker]
  by (simp add: static_link_step_def)




lemma select_next_step_id_not_shortcut:
  assumes "next_links current = links" and "\<forall>t. links \<noteq> [StaticFlowLink t]"
  shows "select_next_step_id E current ctx tracker =
     (case evaluate_if_conditions E links ctx tracker of
            Inl e \<Rightarrow> Inl e
          | Inr (Some t) \<Rightarrow> Inr (Some t)
          | Inr None \<Rightarrow>
             (case evaluate_else_condition links of
                Some t \<Rightarrow> Inr (Some t)
              | None \<Rightarrow>
                 if links \<noteq> [] then Inr None
                 else if id_step current = END_STEP then Inr None
                 else (case kind current of
                         LinkFlowStep l \<Rightarrow> Inr (Some END_STEP)
                       | _ \<Rightarrow> Inr None)))"
proof (cases links)
  case Nil
  with assms show ?thesis by (simp add: select_next_step_id_def)
next
  case (Cons l ls)
  with assms show ?thesis
    by (cases l; cases ls) (auto simp: select_next_step_id_def)
qed






section \<open>The step interpreter\<close>

lemma py_insert_below_top:
  assumes "xs \<noteq> []"
  shows "py_insert (- 1) x xs = butlast xs @ [x, last xs]"
proof -
  from assms obtain ys y where xs: "xs = ys @ [y]"
    by (cases xs rule: rev_cases) auto
  have "nat (max 0 (int (length xs) + - 1)) = length ys"
    by (simp add: xs)
  then show ?thesis
    by (simp add: py_insert_def Let_def xs)
qed

text \<open>
  C4. On a non-empty stack, running a link step inserts a user-flow frame for the linked
  flow, of frame type link and at the start step, directly below the top frame: the frames
  below the top, the new frame, then the old top, which stays the top. The step returns
  a continue result without events.
\<close>

theorem run_step_link_below_top:
  "stack \<noteq> [] \<Longrightarrow> kind step = LinkFlowStep linked \<Longrightarrow>
   run_step E step flow stack tracker available_actions flows =
     Inr (butlast stack @ [UserFlowStackFrame linked START_STEP LINK, last stack],
          ContinueFlowWithNextStep [])
   \<and> top_stack (butlast stack @ [UserFlowStackFrame linked START_STEP LINK, last stack])
       = top_stack stack"
  by (simp add: run_step_def push_def py_insert_below_top top_stack_def is_empty_stack_def)

theorem run_step_link_below_top_witness:
  "run_step example_env link_step self_branch_flow [frame_at_a] example_tracker [] [] =
     Inr ([UserFlowStackFrame ''B'' START_STEP LINK, frame_at_a], ContinueFlowWithNextStep [])"
  using run_step_link_below_top [of "[frame_at_a]" link_step "''B''" example_env self_branch_flow
      example_tracker "[]" "[]"]
  by (simp add: link_step_def)

lemma trigger_pattern_continue_interrupted_cases:
  "trigger_pattern_continue_interrupted E cur rest flows = rest
   \<or> (\<exists>n. trigger_pattern_continue_interrupted E cur rest flows
          = rest @ [ContinueInterruptedPatternFlowStackFrame START_STEP n])"
  by (simp add: trigger_pattern_continue_interrupted_def push_def Let_def
      split: DialogueStackFrame.splits option.splits)

lemma trigger_pattern_continue_interrupted_empty:
  "trigger_pattern_continue_interrupted E cur [] flows = []"
  by (simp add: trigger_pattern_continue_interrupted_def top_user_flow_frame_def
      split: DialogueStackFrame.splits)

lemma trigger_pattern_continue_interrupted_nonempty:
  "rest \<noteq> [] \<Longrightarrow> trigger_pattern_continue_interrupted E cur rest flows \<noteq> []"
  using trigger_pattern_continue_interrupted_cases [of E cur rest flows] by auto

lemma pop_snoc: "pop (rest @ [cur]) = Inr (cur, rest)"
  by (simp add: pop_def)

text \<open>
  C5. Running an end step pops the top frame \<open>cur\<close>. If nothing was below it and it is a
  user-flow frame, the stack left is the single completed-pattern frame carrying the
  display name of the frame's flow, or no name if the flow is not found. If frames \<open>rest\<close>
  were below it, or it is no user-flow frame, the stack left is \<open>rest\<close>, or \<open>rest\<close> with a
  continue-interrupted frame on top: no completed-pattern frame is pushed.
\<close>

theorem run_step_end_completed_pattern:
  "kind step = EndFlowStep \<Longrightarrow>
   (is_UserFlowStackFrame cur \<longrightarrow>
      run_step E step flow [cur] tracker available_actions flows =
        Inr ([CompletedPatternFlowStackFrame START_STEP
                (map_option readable_name (frame_flow E cur flows))],
             ContinueFlowWithNextStep (reset_scoped_slots flow tracker)))
   \<and> (rest \<noteq> [] \<or> \<not> is_UserFlowStackFrame cur \<longrightarrow>
        (\<exists>stack'. run_step E step flow (rest @ [cur]) tracker available_actions flows =
             Inr (stack', ContinueFlowWithNextStep (reset_scoped_slots flow tracker))
           \<and> (stack' = rest
                \<or> (\<exists>n. stack' = rest @ [ContinueInterruptedPatternFlowStackFrame START_STEP n]))))"
proof (intro conjI impI)
  assume k: "kind step = EndFlowStep" and u: "is_UserFlowStackFrame cur"
  have "pop [cur] = Inr (cur, [])" using pop_snoc [of "[]" cur] by simp
  with k u show "run_step E step flow [cur] tracker available_actions flows =
        Inr ([CompletedPatternFlowStackFrame START_STEP
                (map_option readable_name (frame_flow E cur flows))],
             ContinueFlowWithNextStep (reset_scoped_slots flow tracker))"
    by (simp add: run_step_def trigger_pattern_continue_interrupted_empty
        trigger_pattern_completed_def is_empty_stack_def push_def Let_def
        split: option.splits)
next
  assume k: "kind step = EndFlowStep" and c: "rest \<noteq> [] \<or> \<not> is_UserFlowStackFrame cur"
  let ?s2 = "trigger_pattern_continue_interrupted E cur rest flows"
  have "\<not> is_empty_stack ?s2 \<or> \<not> is_UserFlowStackFrame cur"
    using c trigger_pattern_continue_interrupted_nonempty [of rest E cur flows]
    by (auto simp: is_empty_stack_def)
  then have 3: "trigger_pattern_completed E cur ?s2 flows = ?s2"
    by (auto simp: trigger_pattern_completed_def)
  have r: "run_step E step flow (rest @ [cur]) tracker available_actions flows =
             Inr (?s2, ContinueFlowWithNextStep (reset_scoped_slots flow tracker))"
    using k by (simp add: run_step_def pop_snoc Let_def 3)
  show "\<exists>stack'. run_step E step flow (rest @ [cur]) tracker available_actions flows =
             Inr (stack', ContinueFlowWithNextStep (reset_scoped_slots flow tracker))
           \<and> (stack' = rest
                \<or> (\<exists>n. stack' = rest @ [ContinueInterruptedPatternFlowStackFrame START_STEP n]))"
    using r trigger_pattern_continue_interrupted_cases [of E cur rest flows] by auto
qed


theorem run_step_end_completed_pattern_witness:
  "run_step example_env end_step self_branch_flow [frame_at_a] example_tracker []
       [self_branch_flow] =
     Inr ([CompletedPatternFlowStackFrame START_STEP (Some ''F'')],
          ContinueFlowWithNextStep [])
   \<and> (\<exists>stack'. run_step example_env end_step self_branch_flow ([frame_at_a] @ [frame_at_a])
                   example_tracker [] [self_branch_flow] =
                 Inr (stack', ContinueFlowWithNextStep [])
        \<and> (stack' = [frame_at_a]
             \<or> (\<exists>n. stack' = [frame_at_a]
                        @ [ContinueInterruptedPatternFlowStackFrame START_STEP n])))"
  using run_step_end_completed_pattern [of end_step frame_at_a example_env self_branch_flow
      example_tracker "[]" "[self_branch_flow]" "[frame_at_a]"]
  by (simp add: end_step_def frame_at_a_def example_env_def self_branch_flow_def
      reset_scoped_slots_def resettable_set_slots_def self_branch_step_def)

text \<open>
  C8. Running an action step fails with the interpretation error exactly when the step has
  no action name (none, or an empty one). With a name whose rendered form is not among the
  available actions the step returns a continue result without events and leaves the stack
  as it is; with a rendered name that is available it returns a pause with that name,
  confidence 1 and no metadata.
\<close>

theorem run_step_action:
  "kind step = ActionFlowStep action \<Longrightarrow>
   ((\<exists>msg. run_step E step flow stack tracker available_actions flows = Inl (FlowException msg))
      \<longleftrightarrow> (action = None \<or> action = Some []))
   \<and> (\<forall>text rendered.
         action = Some text \<and> text \<noteq> []
         \<and> render E text [''context'' \<mapsto> PDict (current_context E stack)] = Inr rendered
       \<longrightarrow> (rendered \<notin> set available_actions \<longrightarrow>
              run_step E step flow stack tracker available_actions flows =
                Inr (stack, ContinueFlowWithNextStep []))
         \<and> (rendered \<in> set available_actions \<longrightarrow>
              run_step E step flow stack tracker available_actions flows =
                Inr (stack, PauseFlowReturnPrediction
                       \<lparr>action_name = Some rendered, score = 1, metadata = None,
                        events_of_prediction = []\<rparr>)))"
  by (auto simp: run_step_def render_template_variables_def split: option.splits sum.splits)

theorem run_step_action_witness:
  "(\<exists>msg. run_step example_env (self_action_step\<lparr>kind := ActionFlowStep None\<rparr>)
             self_action_flow [frame_at_a] example_tracker [''a1''] [self_action_flow]
           = Inl (FlowException msg))
   \<and> run_step example_env self_action_step self_action_flow [frame_at_a] example_tracker
         [''a2''] [self_action_flow]
       = Inr ([frame_at_a], ContinueFlowWithNextStep [])
   \<and> run_step example_env self_action_step self_action_flow [frame_at_a] example_tracker
         [''a1''] [self_action_flow]
       = Inr ([frame_at_a], PauseFlowReturnPrediction
                \<lparr>action_name = Some ''a1'', score = 1, metadata = None,
                 events_of_prediction = []\<rparr>)"
  using run_step_action [of "self_action_step\<lparr>kind := ActionFlowStep None\<rparr>" None example_env
      self_action_flow "[frame_at_a]" example_tracker "[''a1'']" "[self_action_flow]"]
    run_step_action [of self_action_step "Some ''a1''" example_env
      self_action_flow "[frame_at_a]" example_tracker "[''a2'']" "[self_action_flow]"]
    run_step_action [of self_action_step "Some ''a1''" example_env
      self_action_flow "[frame_at_a]" example_tracker "[''a1'']" "[self_action_flow]"]
  by (simp add: self_action_step_def example_env_def)

section \<open>Scoped slot reset\<close>

lemma collect_step_resets_slot:
  "SlotSet x v \<in> set (collect_step_resets all_steps tracker) \<Longrightarrow>
   \<exists>s \<in> set all_steps. \<exists>u r a. kind s = CollectInformationFlowStep x u r a True"
  by (induction all_steps) (auto simp: reset_slot_def split: FlowStepKind.splits if_splits)

lemma not_resettable_slot_names_member:
  "s \<in> set all_steps \<Longrightarrow> kind s = CollectInformationFlowStep x u r a False \<Longrightarrow>
   x \<in> not_resettable_slot_names all_steps"
  by (induction all_steps) (auto split: FlowStepKind.splits)

text \<open>
  C6, amended. If a flow has a collect step for the slot \<open>x\<close> that opts out of the reset
  after the flow ends, then \<open>x\<close> is not among the slots reset on account of set-slots steps;
  and if moreover no collect step of the flow for \<open>x\<close> asks for the reset, no reset event
  for \<open>x\<close> is emitted at all.
\<close>

theorem reset_scoped_slots_opt_out:
  "s \<in> set (steps flow) \<Longrightarrow> kind s = CollectInformationFlowStep x u r a False \<Longrightarrow>
   x \<notin> set (resettable_set_slots (steps flow))
   \<and> ((\<forall>s' \<in> set (steps flow). \<forall>u' r' a'. kind s' \<noteq> CollectInformationFlowStep x u' r' a' True)
        \<longrightarrow> (\<forall>v. SlotSet x v \<notin> set (reset_scoped_slots flow tracker)))"
proof (intro conjI impI allI)
  assume m: "s \<in> set (steps flow)" and k: "kind s = CollectInformationFlowStep x u r a False"
  then show n: "x \<notin> set (resettable_set_slots (steps flow))"
    by (simp add: resettable_set_slots_def not_resettable_slot_names_member)
  fix v
  assume no: "\<forall>s' \<in> set (steps flow). \<forall>u' r' a'. kind s' \<noteq> CollectInformationFlowStep x u' r' a' True"
  then have "SlotSet x v \<notin> set (collect_step_resets (steps flow) tracker)"
    using collect_step_resets_slot [of x v "steps flow" tracker] by blast
  moreover have "SlotSet x v \<notin> set (map (\<lambda>name. reset_slot name tracker) (resettable_set_slots (steps flow)))"
    using n by (auto simp: reset_slot_def)
  ultimately show "SlotSet x v \<notin> set (reset_scoped_slots flow tracker)"
    by (simp add: reset_scoped_slots_def)
qed

theorem reset_scoped_slots_opt_out_witness:
  "''x'' \<notin> set (resettable_set_slots (steps one_collect_flow))
   \<and> (\<forall>v. SlotSet ''x'' v \<notin> set (reset_scoped_slots one_collect_flow example_tracker))"
  using reset_scoped_slots_opt_out [of opt_out_step one_collect_flow "''x''" "''utter_ask_x''" "[]" True example_tracker]
  by (simp add: one_collect_flow_def opt_out_step_def set_x_step_def)

text \<open>
  C6 as stated fails: a flow with a collect step for \<open>x\<close> that opts out, a second collect
  step for \<open>x\<close> that does not, and a set-slots step writing \<open>x\<close> emits a reset event for
  \<open>x\<close>, the one of the second collect step.
\<close>

theorem reset_scoped_slots_second_collect_step_resets:
  "opt_out_step \<in> set (steps two_collects_flow)
   \<and> kind opt_out_step = CollectInformationFlowStep ''x'' ''utter_ask_x'' [] True False
   \<and> set_x_step \<in> set (steps two_collects_flow)
   \<and> kind set_x_step = SetSlotsFlowStep [(''x'', PInt 1)]
   \<and> reset_scoped_slots two_collects_flow example_tracker = [SlotSet ''x'' PNone]"
  by (simp add: two_collects_flow_def opt_out_step_def opt_in_step_def set_x_step_def
      reset_scoped_slots_def resettable_set_slots_def reset_slot_def example_tracker_def)

section \<open>Predicate evaluation\<close>




section \<open>The turn loop and its circuit breaker\<close>

lemma is_condition_satisfied_no_breaker:
  "is_condition_satisfied E p ctx tracker = Inl e \<Longrightarrow>
   e \<noteq> FlowCircuitBreakerTrippedException s c"
  by (auto simp: is_condition_satisfied_def Let_def split: sum.splits)

lemma evaluate_if_conditions_no_breaker:
  "evaluate_if_conditions E links ctx tracker = Inl e \<Longrightarrow>
   e \<noteq> FlowCircuitBreakerTrippedException s c"
proof (induction E links ctx tracker rule: evaluate_if_conditions.induct)
  case (2 E cond t links ctx tracker)
  then show ?case
    by (auto split: sum.splits bool.splits if_splits dest: is_condition_satisfied_no_breaker)
qed simp_all

lemma select_next_step_id_no_breaker:
  "select_next_step_id E current ctx tracker = Inl e \<Longrightarrow>
   e \<noteq> FlowCircuitBreakerTrippedException s c"
proof (cases "\<exists>t. next_links current = [StaticFlowLink t]")
  case True
  then show "select_next_step_id E current ctx tracker = Inl e \<Longrightarrow> ?thesis"
    by (auto simp: select_next_step_id_def)
next
  case False
  then have ns: "\<forall>t. next_links current \<noteq> [StaticFlowLink t]" by simp
  show "select_next_step_id E current ctx tracker = Inl e \<Longrightarrow> ?thesis"
    by (auto simp: select_next_step_id_not_shortcut [OF refl ns]
        split: sum.splits option.splits FlowStepKind.splits if_splits
        dest: evaluate_if_conditions_no_breaker)
qed

lemma select_next_step_no_breaker:
  "select_next_step E cur fl stack tracker = Inl e \<Longrightarrow>
   e \<noteq> FlowCircuitBreakerTrippedException s c"
  by (auto simp: select_next_step_def split: option.splits sum.splits
      dest: select_next_step_id_no_breaker)

lemma run_step_no_breaker:
  "run_step E step flow stack tracker acts flows = Inl e \<Longrightarrow>
   e \<noteq> FlowCircuitBreakerTrippedException s c"
  by (cases "kind step")
    (auto simp: run_step_def pop_def Let_def split: option.splits sum.splits if_splits)

lemma loop_body_no_breaker:
  "loop_body E flows acts r stack tracker = Inl e \<Longrightarrow>
   e \<noteq> FlowCircuitBreakerTrippedException s c"
  by (auto simp: loop_body_def Let_def split: option.splits sum.splits prod.splits if_splits
      dest: select_next_step_no_breaker run_step_no_breaker)

lemma loop_breaker_iff:
  "n + k = MAX_NUMBER_OF_STEPS \<Longrightarrow>
   (loop E flows acts n r s t = Inl (FlowCircuitBreakerTrippedException s' c))
   \<longleftrightarrow> (c = Suc MAX_NUMBER_OF_STEPS
        \<and> (\<exists>r' t'. continued_passes E flows acts k r s t = Some (r', s', t')))"
proof (induction k arbitrary: n r s t)
  case 0
  then have n: "n = MAX_NUMBER_OF_STEPS" by simp
  show ?case
    unfolding n
    by (auto simp: loop.simps [of E flows acts MAX_NUMBER_OF_STEPS r s t])
next
  case (Suc k)
  then have lt: "\<not> MAX_NUMBER_OF_STEPS < Suc n" and nk: "Suc n + k = MAX_NUMBER_OF_STEPS"
    by simp_all
  show ?case
  proof (cases "is_continue r")
    case False
    then show ?thesis by (simp add: loop.simps [of E flows acts n r s t])
  next
    case True
    show ?thesis
    proof (cases "loop_body E flows acts r s t")
      case (Inl e)
      with True lt loop_body_no_breaker [of E flows acts r s t e s' c] show ?thesis
        by (simp add: loop.simps [of E flows acts n r s t])
    next
      case (Inr x)
      obtain r1 s1 t1 where x: "x = (r1, s1, t1)" by (cases x) auto
      from Inr x True lt Suc.IH [OF nk, of r1 s1 t1] show ?thesis
        by (simp add: loop.simps [of E flows acts n r s t])
    qed
  qed
qed

lemma select_next_action_breaker_iff:
  "(select_next_action E stack tracker acts flows = Inl (FlowCircuitBreakerTrippedException s' c))
   \<longleftrightarrow> (loop E flows acts 0 (ContinueFlowWithNextStep []) stack tracker
          = Inl (FlowCircuitBreakerTrippedException s' c))"
  by (auto simp: select_next_action_def Let_def split: sum.splits prod.splits FlowStepResult.splits)


lemma top_stack_Some: "top_stack s = Some f \<longleftrightarrow> s \<noteq> [] \<and> last s = f"
  by (auto simp: top_stack_def is_empty_stack_def)

lemma advance_top_flow_on_stack_same:
  assumes "top_stack s = Some f" and "set_step_id i f = f"
  shows "advance_top_flow_on_stack i s = s"
proof -
  from assms(1) have "s \<noteq> []" and "last s = f" by (simp_all add: top_stack_Some)
  then have "butlast s @ [f] = s" by (metis append_butlast_last_id)
  with assms show ?thesis
    by (simp add: advance_top_flow_on_stack_def)
qed

lemma run_step_continues_in_place:
  assumes top: "top_stack s = Some f"
    and k: "kind A = BranchFlowStep \<or> (\<exists>sl. kind A = SetSlotsFlowStep sl)
         \<or> (\<exists>l. kind A = LinkFlowStep l)
         \<or> (\<exists>a name. kind A = ActionFlowStep (Some a) \<and> a \<noteq> []
               \<and> render E a [''context'' \<mapsto> PDict (frame_context E f)] = Inr name
               \<and> name \<notin> set acts)"
  shows "\<exists>s' evs. run_step E A flow s t acts flows = Inr (s', ContinueFlowWithNextStep evs)
           \<and> top_stack s' = Some f"
proof -
  from top have ne: "s \<noteq> []" and l: "last s = f" by (simp_all add: top_stack_Some)
  from top have ctx: "current_context E s = frame_context E f"
    by (simp add: current_context_def)
  from k consider "kind A = BranchFlowStep" | sl where "kind A = SetSlotsFlowStep sl"
    | ln where "kind A = LinkFlowStep ln"
    | a name where "kind A = ActionFlowStep (Some a)" "a \<noteq> []"
        "render E a [''context'' \<mapsto> PDict (frame_context E f)] = Inr name" "name \<notin> set acts"
    by blast
  then show ?thesis
  proof cases
    case 1
    with top show ?thesis by (simp add: run_step_def)
  next
    case 2
    with top show ?thesis by (simp add: run_step_def)
  next
    case 3
    with ne l show ?thesis
      by (simp add: run_step_def push_def py_insert_below_top top_stack_Some)
  next
    case 4
    with top ctx show ?thesis
      by (simp add: run_step_def render_template_variables_def)
  qed
qed

lemma loop_body_self_link:
  assumes top: "top_stack s = Some f" and base: "is_BaseFlowStackFrame f"
    and cur: "set_step_id (id_step A) f = f"
    and fl: "frame_flow E f flows = Some flow" and st: "frame_step E f flows = Some A"
    and by_id: "step_by_id E flow (Some (id_step A)) = Some A"
    and link: "next_links A = [StaticFlowLink (id_step A)]"
    and k: "kind A = BranchFlowStep \<or> (\<exists>sl. kind A = SetSlotsFlowStep sl)
         \<or> (\<exists>l. kind A = LinkFlowStep l)
         \<or> (\<exists>a name. kind A = ActionFlowStep (Some a) \<and> a \<noteq> []
               \<and> render E a [''context'' \<mapsto> PDict (frame_context E f)] = Inr name
               \<and> name \<notin> set acts)"
  shows "\<exists>r' s' t'. loop_body E flows acts r s t = Inr (r', s', t')
           \<and> is_continue r' \<and> top_stack s' = Some f"
proof -
  have sel: "select_next_step E (Some A) (Some flow) s t = Inr (Some A)"
    by (simp add: select_next_step_def select_next_step_id_def link by_id)
  have adv: "advance_top_flow_on_stack (id_step A) s = s"
    using top cur by (rule advance_top_flow_on_stack_same)
  from run_step_continues_in_place [OF top k, of flow t flows]
  obtain s' evs where
    run: "run_step E A flow s t acts flows = Inr (s', ContinueFlowWithNextStep evs)"
    and top': "top_stack s' = Some f"
    by blast
  show ?thesis
    by (simp add: loop_body_def top base fl st sel adv run top')
qed

lemma continued_passes_self_link:
  assumes step: "\<And>r s t. top_stack s = Some f \<Longrightarrow>
      \<exists>r' s' t'. loop_body E flows acts r s t = Inr (r', s', t')
           \<and> is_continue r' \<and> top_stack s' = Some f"
  shows "is_continue r \<Longrightarrow> top_stack s = Some f \<Longrightarrow>
     \<exists>r' s' t'. continued_passes E flows acts k r s t = Some (r', s', t')
        \<and> top_stack s' = Some f"
proof (induction k arbitrary: r s t)
  case 0
  then show ?case by simp
next
  case (Suc k)
  from step [OF Suc.prems(2), of r t] obtain r1 s1 t1 where
    b: "loop_body E flows acts r s t = Inr (r1, s1, t1)" and c: "is_continue r1"
    and t1: "top_stack s1 = Some f"
    by blast
  from Suc.IH [OF c t1, of t1] Suc.prems(1) b show ?case by simp
qed

text \<open>
  C1, amended. The loop of \<open>select_next_action\<close> counts its passes from 0 and ends the
  turn with the circuit breaker's exception exactly when 250 passes have been completed
  with a continue result and none has raised: the exception then carries the stack as the
  250th pass left it and the counter 251, and it is never raised with another counter.
  In particular, if the top frame's current step has one link, a static link to the step
  itself, and the step is one that continues and leaves its frame on top (a branch, set-slots
  or link step, or an action step whose rendered name is not available), the turn ends
  with the circuit breaker's exception, the frame still on top.
\<close>

theorem select_next_action_circuit_breaker:
  "((select_next_action E stack tracker available_actions flows
       = Inl (FlowCircuitBreakerTrippedException s' c))
     \<longleftrightarrow> (c = 251
          \<and> (\<exists>r' t'. continued_passes E flows available_actions MAX_NUMBER_OF_STEPS
                        (ContinueFlowWithNextStep []) stack tracker = Some (r', s', t'))))
   \<and> (top_stack stack = Some f \<and> is_BaseFlowStackFrame f
       \<and> set_step_id (id_step A) f = f
       \<and> frame_flow E f flows = Some flow \<and> frame_step E f flows = Some A
       \<and> step_by_id E flow (Some (id_step A)) = Some A
       \<and> next_links A = [StaticFlowLink (id_step A)]
       \<and> (kind A = BranchFlowStep \<or> (\<exists>sl. kind A = SetSlotsFlowStep sl)
           \<or> (\<exists>l. kind A = LinkFlowStep l)
           \<or> (\<exists>a name. kind A = ActionFlowStep (Some a) \<and> a \<noteq> []
                 \<and> render E a [''context'' \<mapsto> PDict (frame_context E f)] = Inr name
                 \<and> name \<notin> set available_actions))
      \<longrightarrow> (\<exists>final. select_next_action E stack tracker available_actions flows
                      = Inl (FlowCircuitBreakerTrippedException final 251)
                  \<and> top_stack final = Some f))"
proof (intro conjI impI)
  have m: "Suc MAX_NUMBER_OF_STEPS = 251" by (simp add: MAX_NUMBER_OF_STEPS_def)
  show "(select_next_action E stack tracker available_actions flows
       = Inl (FlowCircuitBreakerTrippedException s' c))
     \<longleftrightarrow> (c = 251
          \<and> (\<exists>r' t'. continued_passes E flows available_actions MAX_NUMBER_OF_STEPS
                        (ContinueFlowWithNextStep []) stack tracker = Some (r', s', t')))"
    using loop_breaker_iff [of 0 MAX_NUMBER_OF_STEPS E flows available_actions
        "ContinueFlowWithNextStep []" stack tracker s' c]
    by (simp add: select_next_action_breaker_iff m)
next
  assume h: "top_stack stack = Some f \<and> is_BaseFlowStackFrame f
       \<and> set_step_id (id_step A) f = f
       \<and> frame_flow E f flows = Some flow \<and> frame_step E f flows = Some A
       \<and> step_by_id E flow (Some (id_step A)) = Some A
       \<and> next_links A = [StaticFlowLink (id_step A)]
       \<and> (kind A = BranchFlowStep \<or> (\<exists>sl. kind A = SetSlotsFlowStep sl)
           \<or> (\<exists>l. kind A = LinkFlowStep l)
           \<or> (\<exists>a name. kind A = ActionFlowStep (Some a) \<and> a \<noteq> []
                 \<and> render E a [''context'' \<mapsto> PDict (frame_context E f)] = Inr name
                 \<and> name \<notin> set available_actions))"
  have m: "Suc MAX_NUMBER_OF_STEPS = 251" by (simp add: MAX_NUMBER_OF_STEPS_def)
  have step: "\<And>r s t. top_stack s = Some f \<Longrightarrow>
      \<exists>r' s' t'. loop_body E flows available_actions r s t = Inr (r', s', t')
           \<and> is_continue r' \<and> top_stack s' = Some f"
    using h loop_body_self_link [of _ f A E flows flow available_actions] by blast
  from h have top: "top_stack stack = Some f" by simp
  from continued_passes_self_link [of f E flows available_actions "ContinueFlowWithNextStep []"
      stack MAX_NUMBER_OF_STEPS tracker, OF step _ top]
  obtain r' final t' where
    p: "continued_passes E flows available_actions MAX_NUMBER_OF_STEPS
          (ContinueFlowWithNextStep []) stack tracker = Some (r', final, t')"
    and tf: "top_stack final = Some f"
    by auto
  from p have "loop E flows available_actions 0 (ContinueFlowWithNextStep []) stack tracker
      = Inl (FlowCircuitBreakerTrippedException final 251)"
    using loop_breaker_iff [of 0 MAX_NUMBER_OF_STEPS E flows available_actions
        "ContinueFlowWithNextStep []" stack tracker final 251]
    by (simp add: m)
  with tf show "\<exists>final. select_next_action E stack tracker available_actions flows
                      = Inl (FlowCircuitBreakerTrippedException final 251)
                  \<and> top_stack final = Some f"
    by (auto simp: select_next_action_breaker_iff)
qed

theorem select_next_action_circuit_breaker_witness:
  "\<exists>final. select_next_action example_env [frame_at_a] example_tracker [] [self_branch_flow]
              = Inl (FlowCircuitBreakerTrippedException final 251)
          \<and> top_stack final = Some frame_at_a"
proof -
  have h: "top_stack [frame_at_a] = Some frame_at_a \<and> is_BaseFlowStackFrame frame_at_a
       \<and> set_step_id (id_step self_branch_step) frame_at_a = frame_at_a
       \<and> frame_flow example_env frame_at_a [self_branch_flow] = Some self_branch_flow
       \<and> frame_step example_env frame_at_a [self_branch_flow] = Some self_branch_step
       \<and> step_by_id example_env self_branch_flow (Some (id_step self_branch_step))
           = Some self_branch_step
       \<and> next_links self_branch_step = [StaticFlowLink (id_step self_branch_step)]
       \<and> (kind self_branch_step = BranchFlowStep
           \<or> (\<exists>sl. kind self_branch_step = SetSlotsFlowStep sl)
           \<or> (\<exists>l. kind self_branch_step = LinkFlowStep l)
           \<or> (\<exists>a name. kind self_branch_step = ActionFlowStep (Some a) \<and> a \<noteq> []
                 \<and> render example_env a [''context'' \<mapsto> PDict (frame_context example_env frame_at_a)]
                     = Inr name
                 \<and> name \<notin> set []))"
    by (simp add: top_stack_def is_empty_stack_def frame_at_a_def self_branch_step_def
        self_branch_flow_def example_env_def)
  from select_next_action_circuit_breaker [where E = example_env and stack = "[frame_at_a]"
      and tracker = example_tracker and available_actions = "[]" and flows = "[self_branch_flow]"
      and f = frame_at_a and A = self_branch_step and flow = self_branch_flow,
      THEN conjunct2, THEN mp, OF h]
  show ?thesis .
qed

text \<open>
  C1 as stated fails for a step that pauses the turn: an action step whose only link
  targets the step itself and whose action is available ends the turn in its first pass
  with the prediction of that action; the circuit breaker is not tripped.
\<close>

theorem select_next_action_self_link_pauses:
  "next_links self_action_step = [StaticFlowLink (id_step self_action_step)]
   \<and> frame_step example_env frame_at_a [self_action_flow] = Some self_action_step
   \<and> select_next_action example_env [frame_at_a] example_tracker [''a1''] [self_action_flow]
       = Inr ([frame_at_a],
              \<lparr>action_name = Some ''a1'', score = 1, metadata = None,
               events_of_prediction = []\<rparr>)"
  by (simp add: select_next_action_def loop.simps loop_body_def select_next_step_def
      select_next_step_id_def run_step_def advance_top_flow_on_stack_def top_stack_def
      is_empty_stack_def current_context_def render_template_variables_def
      update_with_events_def MAX_NUMBER_OF_STEPS_def
      frame_at_a_def self_action_step_def self_action_flow_def example_env_def
      example_tracker_def)

end
